theory Spec2Isabelle
  imports Main "HOL-Library.Word"
begin

section \<open>The DigitalOcean widget of wtf: data model\<close>

text \<open>
  The development embeds \<^verbatim>\<open>modules/digitalocean/widget.go\<close>. The widget is a
  long-lived object whose fields are mutated by its methods; here it is a record that
  every method takes and returns. A Go run-time panic (index out of range, nil pointer
  dereference) is the left injection of a sum; a method whose loop may run forever
  returns an \<open>option\<close> whose \<open>None\<close> means that it never returns.
\<close>

text \<open>A droplet is a value of the provider's library; the widget reads its ID and its name.\<close>

record droplet =
  ID :: int
  Name :: string

text \<open>A Go \<^verbatim>\<open>error\<close> value, as built by \<^verbatim>\<open>errors.New\<close>.\<close>

datatype error = errors_New string

datatype panic = IndexOutOfRange | NilPointerDereference

text \<open>
  \<^verbatim>\<open>godo.ListOptions\<close>: the page requested and the page size. Go's \<^verbatim>\<open>int\<close> is taken
  to have 64 bits, so that \<^verbatim>\<open>page + 1\<close> wraps around.
\<close>

record listOptions =
  Page :: "64 word"
  PerPage :: "64 word"

text \<open>
  \<^verbatim>\<open>godo.Links\<close> belongs to the provider's library. The widget only calls its two
  methods, so a value of the type is given by what they return: \<^verbatim>\<open>IsLastPage()\<close> and
  \<^verbatim>\<open>CurrentPage()\<close>, the latter a page number or the error of parsing it.
\<close>

record links =
  IsLastPage :: bool
  CurrentPage :: "error + 64 word"

text \<open>
  What \<^verbatim>\<open>client.Droplets.List\<close> returns: the droplets of the page, the response's
  \<^verbatim>\<open>Links\<close> field (a pointer, \<open>None\<close> when nil) and the error (\<open>None\<close> when nil).
\<close>

record listResult =
  res_droplets :: "droplet list"
  res_Links :: "links option"
  res_err :: "error option"

text \<open>
  The remote service is outside the program. A client is given by the calls issued
  through it so far, oldest first; the service's answer to a call is a function of that
  history and of the call's argument, which covers every deterministic service.
\<close>

datatype call =
    ListCall listOptions
  | DeleteCall int
  | EnablePrivateNetworkingCall int
  | RebootCall int
  | ShutdownCall int

record adapter =
  Droplets_List :: "call list \<Rightarrow> listOptions \<Rightarrow> listResult"
  Droplets_Delete :: "call list \<Rightarrow> int \<Rightarrow> error option"
  DropletActions_EnablePrivateNetworking :: "call list \<Rightarrow> int \<Rightarrow> error option"
  DropletActions_Reboot :: "call list \<Rightarrow> int \<Rightarrow> error option"
  DropletActions_Shutdown :: "call list \<Rightarrow> int \<Rightarrow> error option"

text \<open>
  The fields of \<^verbatim>\<open>Widget\<close> that the methods below read or write. \<open>Selected\<close> is the
  cursor of the embedded scrollable widget and \<open>itemCount\<close> the item count that the
  scrollable widget is given through \<^verbatim>\<open>SetItemCount\<close>;
  \<open>client\<close> is \<open>None\<close> for a nil client and otherwise holds the client's call history.
\<close>

record widget =
  Selected :: int
  itemCount :: int
  client :: "call list option"
  droplets :: "droplet list"
  err :: "error option"

section \<open>Collaborators outside the source file\<close>

text \<open>
  Modelled from the spec: \<^verbatim>\<open>SetItemCount\<close> of the scrollable-widget base, which is not
  part of the source file. The spec calls its effect "the external item-count is set to"
  the given number and names no other effect.
\<close>

definition SetItemCount :: "int \<Rightarrow> widget \<Rightarrow> widget" where
  "SetItemCount items w = w\<lparr>itemCount := items\<rparr>"

text \<open>
  Modelled from the spec: \<^verbatim>\<open>display\<close>, the render function of the widget, which is not
  part of the source file. The spec says that "the Display Surface is asked to re-render";
  rendering reads the widget and changes none of its fields.
\<close>

definition display :: "widget \<Rightarrow> widget" where
  "display w = w"

section \<open>Slices\<close>

text \<open>Reading and writing a slice element panics outside \<open>0 \<le> i < len\<close>.\<close>

definition index :: "'a list \<Rightarrow> int \<Rightarrow> panic + 'a" where
  "index xs i = (if 0 \<le> i \<and> i < int (length xs) then Inr (xs ! nat i) else Inl IndexOutOfRange)"

definition store :: "'a list \<Rightarrow> int \<Rightarrow> 'a \<Rightarrow> panic + 'a list" where
  "store xs i v = (if 0 \<le> i \<and> i < int (length xs) then Inr (xs[nat i := v]) else Inl IndexOutOfRange)"

text \<open>
  \<^verbatim>\<open>xs[:n]\<close> keeps the first \<open>n\<close> elements and panics for a negative \<open>n\<close>. Beyond the
  length Go's answer depends on the capacity, which is not modelled: the only use below
  has \<open>n = len - 1\<close>, and a larger \<open>n\<close> is counted as a panic.
\<close>

definition slice_to :: "'a list \<Rightarrow> int \<Rightarrow> panic + 'a list" where
  "slice_to xs n = (if 0 \<le> n \<and> n \<le> int (length xs) then Inr (take (nat n) xs) else Inl IndexOutOfRange)"

section \<open>The methods of the widget\<close>

text \<open>
  \<^verbatim>\<open>currentDroplet\<close>: nil for an empty collection, nil for a cursor at or beyond the
  length, otherwise the element at the cursor. The element expression is an indexing and
  so panics for a negative cursor, which neither guard excludes.
\<close>

definition currentDroplet :: "widget \<Rightarrow> panic + droplet option" where
  "currentDroplet w =
     (if length (droplets w) = 0 then Inr None
      else if int (length (droplets w)) \<le> Selected w then Inr None
      else (case index (droplets w) (Selected w) of
              Inl p \<Rightarrow> Inl p
            | Inr d \<Rightarrow> Inr (Some d)))"

text \<open>The inner loop of \<^verbatim>\<open>dropletsFetch\<close>: append the page's droplets one by one.\<close>

fun append_each :: "droplet list \<Rightarrow> droplet list \<Rightarrow> droplet list" where
  "append_each dropletList [] = dropletList"
| "append_each dropletList (d # ds) = append_each (dropletList @ [d]) ds"

text \<open>
  The loop of \<^verbatim>\<open>dropletsFetch\<close>, with its three exits: the listing error, the last page
  (nil links or \<^verbatim>\<open>IsLastPage\<close>) and the page-number error. The result is the pair the Go
  function returns, with the client's history after the calls made.
\<close>

partial_function (option) dropletsFetch_loop ::
  "adapter \<Rightarrow> call list \<Rightarrow> listOptions \<Rightarrow> droplet list \<Rightarrow>
     ((droplet list \<times> error option) \<times> call list) option" where
  "dropletsFetch_loop A c opts dropletList =
     (if res_err (Droplets_List A c opts) \<noteq> None
      then Some ((dropletList, res_err (Droplets_List A c opts)), c @ [ListCall opts])
      else if res_Links (Droplets_List A c opts) = None
              \<or> IsLastPage (the (res_Links (Droplets_List A c opts)))
      then Some ((append_each dropletList (res_droplets (Droplets_List A c opts)), None),
                 c @ [ListCall opts])
      else (case CurrentPage (the (res_Links (Droplets_List A c opts))) of
              Inl e \<Rightarrow>
                Some ((append_each dropletList (res_droplets (Droplets_List A c opts)), Some e),
                      c @ [ListCall opts])
            | Inr page \<Rightarrow>
                dropletsFetch_loop A (c @ [ListCall opts]) (opts\<lparr>Page := page + 1\<rparr>)
                  (append_each dropletList (res_droplets (Droplets_List A c opts)))))"

definition dropletsFetch ::
  "adapter \<Rightarrow> call list \<Rightarrow> ((droplet list \<times> error option) \<times> call list) option" where
  "dropletsFetch A c = dropletsFetch_loop A c \<lparr>Page = 0, PerPage = 0\<rparr> []"

text \<open>
  \<^verbatim>\<open>Fetch\<close>: with a nil client the error is returned and no field is written; otherwise
  the list returned by \<^verbatim>\<open>dropletsFetch\<close> is stored in \<open>droplets\<close>, whether or not an
  error comes with it.
\<close>

definition Fetch :: "adapter \<Rightarrow> widget \<Rightarrow> (error option \<times> widget) option" where
  "Fetch A w =
     (case client w of
        None \<Rightarrow> Some (Some (errors_New ''client could not be initialized''), w)
      | Some c \<Rightarrow>
          (case dropletsFetch A c of
             None \<Rightarrow> None
           | Some r \<Rightarrow> Some (snd (fst r), w\<lparr>client := Some (snd r), droplets := fst (fst r)\<rparr>)))"

definition Refresh :: "adapter \<Rightarrow> widget \<Rightarrow> widget option" where
  "Refresh A w =
     (case Fetch A w of
        None \<Rightarrow> None
      | Some r \<Rightarrow>
          (if fst r \<noteq> None
           then Some (display (SetItemCount 0 ((snd r)\<lparr>err := fst r\<rparr>)))
           else Some (display (SetItemCount (int (length (droplets (snd r))))
                                 ((snd r)\<lparr>err := None\<rparr>)))))"

text \<open>
  \<^verbatim>\<open>dropletRemoveSelected\<close>: the tuple assignment reads both elements first and then
  writes the last position and the cursor position, in that order; then the slice is cut
  by one.
\<close>

definition dropletRemoveSelected :: "widget \<Rightarrow> panic + widget" where
  "dropletRemoveSelected w =
     (case currentDroplet w of
        Inl p \<Rightarrow> Inl p
      | Inr None \<Rightarrow> Inr w
      | Inr (Some currDroplet) \<Rightarrow>
          (case index (droplets w) (Selected w) of
             Inl p \<Rightarrow> Inl p
           | Inr atSelected \<Rightarrow>
          (case index (droplets w) (int (length (droplets w)) - 1) of
             Inl p \<Rightarrow> Inl p
           | Inr atLast \<Rightarrow>
          (case store (droplets w) (int (length (droplets w)) - 1) atSelected of
             Inl p \<Rightarrow> Inl p
           | Inr ds1 \<Rightarrow>
          (case store ds1 (Selected w) atLast of
             Inl p \<Rightarrow> Inl p
           | Inr ds2 \<Rightarrow>
          (case slice_to ds2 (int (length ds2) - 1) of
             Inl p \<Rightarrow> Inl p
           | Inr ds3 \<Rightarrow> Inr (w\<lparr>droplets := ds3\<rparr>)))))))"

text \<open>
  The four actions. Each resolves the current droplet, returns at once when there is
  none, issues its remote call through the client (a nil client panics), drops what the
  call returns, and ends with \<^verbatim>\<open>Refresh\<close>; \<^verbatim>\<open>dropletDestroy\<close> removes the selected
  record in between.

  An action returns nothing; what it does is one of three things: it panics, it returns
  at once and leaves the widget alone, or it reaches its last statement and calls
  \<^verbatim>\<open>Refresh\<close>. The last case keeps the widget on which \<^verbatim>\<open>Refresh\<close> is called next to
  what \<^verbatim>\<open>Refresh\<close> returns (\<open>None\<close> if it never returns), because \<^verbatim>\<open>Fetch\<close> overwrites
  the collection and the widget returned alone would not show what the action did to
  the collection before.
\<close>

datatype action_run =
    Panics panic
  | ReturnsAtOnce
  | CallsRefresh widget "widget option"

text \<open>The widget after an action, or its panic; \<open>None\<close> when the action never returns.\<close>

definition lift_refresh :: "widget option \<Rightarrow> (panic + widget) option" where
  "lift_refresh r = (case r of None \<Rightarrow> None | Some w \<Rightarrow> Some (Inr w))"

fun widget_after :: "widget \<Rightarrow> action_run \<Rightarrow> (panic + widget) option" where
  "widget_after w (Panics p) = Some (Inl p)"
| "widget_after w ReturnsAtOnce = Some (Inr w)"
| "widget_after w (CallsRefresh w' r) = lift_refresh r"

definition dropletDestroy :: "adapter \<Rightarrow> widget \<Rightarrow> action_run" where
  "dropletDestroy A w =
     (case currentDroplet w of
        Inl p \<Rightarrow> Panics p
      | Inr None \<Rightarrow> ReturnsAtOnce
      | Inr (Some currDroplet) \<Rightarrow>
          (case client w of
             None \<Rightarrow> Panics NilPointerDereference
           | Some c \<Rightarrow>
               (case (Droplets_Delete A c (ID currDroplet),
                      w\<lparr>client := Some (c @ [DeleteCall (ID currDroplet)])\<rparr>) of
                  (_, w1) \<Rightarrow>
                    (case dropletRemoveSelected w1 of
                       Inl p \<Rightarrow> Panics p
                     | Inr w2 \<Rightarrow> CallsRefresh w2 (Refresh A w2)))))"

definition dropletEnabledPrivateNetworking :: "adapter \<Rightarrow> widget \<Rightarrow> action_run" where
  "dropletEnabledPrivateNetworking A w =
     (case currentDroplet w of
        Inl p \<Rightarrow> Panics p
      | Inr None \<Rightarrow> ReturnsAtOnce
      | Inr (Some currDroplet) \<Rightarrow>
          (case client w of
             None \<Rightarrow> Panics NilPointerDereference
           | Some c \<Rightarrow>
               (case (DropletActions_EnablePrivateNetworking A c (ID currDroplet),
                      w\<lparr>client := Some (c @ [EnablePrivateNetworkingCall (ID currDroplet)])\<rparr>) of
                  (_, w1) \<Rightarrow> CallsRefresh w1 (Refresh A w1))))"

definition dropletRestart :: "adapter \<Rightarrow> widget \<Rightarrow> action_run" where
  "dropletRestart A w =
     (case currentDroplet w of
        Inl p \<Rightarrow> Panics p
      | Inr None \<Rightarrow> ReturnsAtOnce
      | Inr (Some currDroplet) \<Rightarrow>
          (case client w of
             None \<Rightarrow> Panics NilPointerDereference
           | Some c \<Rightarrow>
               (case (DropletActions_Reboot A c (ID currDroplet),
                      w\<lparr>client := Some (c @ [RebootCall (ID currDroplet)])\<rparr>) of
                  (_, w1) \<Rightarrow> CallsRefresh w1 (Refresh A w1))))"

definition dropletShutDown :: "adapter \<Rightarrow> widget \<Rightarrow> action_run" where
  "dropletShutDown A w =
     (case currentDroplet w of
        Inl p \<Rightarrow> Panics p
      | Inr None \<Rightarrow> ReturnsAtOnce
      | Inr (Some currDroplet) \<Rightarrow>
          (case client w of
             None \<Rightarrow> Panics NilPointerDereference
           | Some c \<Rightarrow>
               (case (DropletActions_Shutdown A c (ID currDroplet),
                      w\<lparr>client := Some (c @ [ShutdownCall (ID currDroplet)])\<rparr>) of
                  (_, w1) \<Rightarrow> CallsRefresh w1 (Refresh A w1))))"

section \<open>Vocabulary of the statements\<close>

text \<open>The number of listing calls in a client's history.\<close>

fun isListCall :: "call \<Rightarrow> bool" where
  "isListCall (ListCall opts) = True"
| "isListCall (DeleteCall i) = False"
| "isListCall (EnablePrivateNetworkingCall i) = False"
| "isListCall (RebootCall i) = False"
| "isListCall (ShutdownCall i) = False"

definition listCount :: "call list \<Rightarrow> nat" where
  "listCount c = length (filter isListCall c)"

text \<open>
  A listing answer that reports a further page: no error, links present, not the last
  page, and a page number that could be read.
\<close>

definition has_next_page :: "listResult \<Rightarrow> bool" where
  "has_next_page r =
     (res_err r = None \<and>
      (case res_Links r of
         None \<Rightarrow> False
       | Some l \<Rightarrow> \<not> IsLastPage l \<and> (case CurrentPage l of Inl e \<Rightarrow> False | Inr page \<Rightarrow> True)))"

text \<open>A listing answer that reports no further page: no error, and nil links or the last-page marker.\<close>

definition is_last_page :: "listResult \<Rightarrow> bool" where
  "is_last_page r =
     (res_err r = None \<and>
      (case res_Links r of None \<Rightarrow> True | Some l \<Rightarrow> IsLastPage l))"

text \<open>
  A listing answer at which the loop is expected to stop: an error, nil links, the
  last-page marker, or a page number that could not be read.
\<close>

definition stops :: "listResult \<Rightarrow> bool" where
  "stops r =
     (res_err r \<noteq> None \<or>
      (case res_Links r of
         None \<Rightarrow> True
       | Some l \<Rightarrow> IsLastPage l \<or> (case CurrentPage l of Inl e \<Rightarrow> True | Inr page \<Rightarrow> False)))"

section \<open>Concrete inputs\<close>

definition dropletA :: droplet where "dropletA = \<lparr>ID = 1, Name = ''A''\<rparr>"
definition dropletB :: droplet where "dropletB = \<lparr>ID = 2, Name = ''B''\<rparr>"
definition dropletC :: droplet where "dropletC = \<lparr>ID = 3, Name = ''C''\<rparr>"
definition dropletD :: droplet where "dropletD = \<lparr>ID = 4, Name = ''D''\<rparr>"

text \<open>A widget with a fresh client, the given collection and the given cursor.\<close>

definition widgetWith :: "droplet list \<Rightarrow> int \<Rightarrow> widget" where
  "widgetWith ds sel =
     \<lparr>Selected = sel, itemCount = int (length ds), client = Some [], droplets = ds, err = None\<rparr>"

text \<open>Listing answers: a page with a successor, a page without links, a failed call.\<close>

definition pageWithNext :: "droplet list \<Rightarrow> 64 word \<Rightarrow> listResult" where
  "pageWithNext ds current =
     \<lparr>res_droplets = ds, res_Links = Some \<lparr>IsLastPage = False, CurrentPage = Inr current\<rparr>,
      res_err = None\<rparr>"

definition pageWithoutLinks :: "droplet list \<Rightarrow> listResult" where
  "pageWithoutLinks ds = \<lparr>res_droplets = ds, res_Links = None, res_err = None\<rparr>"

definition failedList :: "error \<Rightarrow> listResult" where
  "failedList e = \<lparr>res_droplets = [], res_Links = None, res_err = Some e\<rparr>"

text \<open>
  A scripted service: the k-th listing call is answered by the k-th entry of the script
  and by the given answer once the script has run out; every other call returns the
  given error.
\<close>

definition scripted :: "listResult list \<Rightarrow> listResult \<Rightarrow> error option \<Rightarrow> adapter" where
  "scripted script after actionErr =
     \<lparr>Droplets_List = (\<lambda>c opts. if listCount c < length script then script ! listCount c else after),
      Droplets_Delete = (\<lambda>c i. actionErr),
      DropletActions_EnablePrivateNetworking = (\<lambda>c i. actionErr),
      DropletActions_Reboot = (\<lambda>c i. actionErr),
      DropletActions_Shutdown = (\<lambda>c i. actionErr)\<rparr>"

section \<open>Selection and removal\<close>

lemma index_in_range: "0 \<le> i \<Longrightarrow> i < int (length xs) \<Longrightarrow> index xs i = Inr (xs ! nat i)"
  by (simp add: index_def)

lemma currentDroplet_in_range:
  "0 \<le> Selected w \<Longrightarrow> Selected w < int (length (droplets w)) \<Longrightarrow>
   currentDroplet w = Inr (Some (droplets w ! nat (Selected w)))"
  by (auto simp: currentDroplet_def index_def)

lemma currentDroplet_none:
  "droplets w = [] \<or> int (length (droplets w)) \<le> Selected w \<Longrightarrow> currentDroplet w = Inr None"
  by (auto simp: currentDroplet_def)

lemma currentDroplet_negative:
  "droplets w \<noteq> [] \<Longrightarrow> Selected w < 0 \<Longrightarrow> currentDroplet w = Inl IndexOutOfRange"
  by (auto simp: currentDroplet_def index_def)

lemma currentDroplet_Some_iff:
  "currentDroplet w = Inr (Some d) \<longleftrightarrow>
   0 \<le> Selected w \<and> Selected w < int (length (droplets w)) \<and> d = droplets w ! nat (Selected w)"
  by (auto simp: currentDroplet_def index_def)

lemma swap_cut:
  assumes "i < length xs"
  shows "take (length xs - 1) (xs[length xs - 1 := xs ! i, i := xs ! (length xs - 1)])
         = butlast (xs[i := last xs])"
proof (rule nth_equalityI)
  show "length (take (length xs - 1) (xs[length xs - 1 := xs ! i, i := xs ! (length xs - 1)]))
        = length (butlast (xs[i := last xs]))" by simp
next
  fix j assume "j < length (take (length xs - 1) (xs[length xs - 1 := xs ! i, i := xs ! (length xs - 1)]))"
  then have j: "j < length xs - 1" by simp
  from assms have ne: "xs \<noteq> []" by auto
  show "take (length xs - 1) (xs[length xs - 1 := xs ! i, i := xs ! (length xs - 1)]) ! j
        = butlast (xs[i := last xs]) ! j"
    using j assms ne by (simp add: nth_butlast nth_list_update last_conv_nth)
qed

lemma dropletRemoveSelected_in_range:
  assumes "0 \<le> Selected w" "Selected w < int (length (droplets w))"
  shows "dropletRemoveSelected w =
         Inr (w\<lparr>droplets := butlast ((droplets w)[nat (Selected w) := last (droplets w)])\<rparr>)"
proof -
  let ?xs = "droplets w"
  let ?i = "nat (Selected w)"
  have i: "?i < length ?xs" using assms by simp
  have n: "nat (int (length ?xs) - 1) = length ?xs - 1" by simp
  have ne: "?xs \<noteq> []" using i by auto
  have "dropletRemoveSelected w =
        Inr (w\<lparr>droplets := take (length ?xs - 1) (?xs[length ?xs - 1 := ?xs ! ?i, ?i := ?xs ! (length ?xs - 1)])\<rparr>)"
    using assms i ne
    by (simp add: dropletRemoveSelected_def currentDroplet_in_range index_def store_def slice_to_def n)
  then show ?thesis using swap_cut [OF i] by simp
qed

lemma dropletRemoveSelected_none:
  "currentDroplet w = Inr None \<Longrightarrow> dropletRemoveSelected w = Inr w"
  by (simp add: dropletRemoveSelected_def)

section \<open>The pagination loop\<close>

lemma append_each_eq: "append_each dl ds = dl @ ds"
  by (induction ds arbitrary: dl) auto

lemma listCount_snoc_List [simp]: "listCount (c @ [ListCall opts]) = Suc (listCount c)"
  by (simp add: listCount_def)

lemma loop_last:
  assumes "is_last_page (Droplets_List A c opts)"
  shows "dropletsFetch_loop A c opts dl =
         Some ((dl @ res_droplets (Droplets_List A c opts), None), c @ [ListCall opts])"
  using assms
  by (subst dropletsFetch_loop.simps) (auto simp: is_last_page_def append_each_eq split: option.splits)

lemma loop_next:
  assumes "has_next_page (Droplets_List A c opts)"
  shows "\<exists>page. dropletsFetch_loop A c opts dl =
         dropletsFetch_loop A (c @ [ListCall opts]) (opts\<lparr>Page := page + 1\<rparr>)
           (dl @ res_droplets (Droplets_List A c opts))"
  using assms
  by (subst dropletsFetch_loop.simps) (auto simp: has_next_page_def append_each_eq split: option.splits sum.splits)

lemma loop_stops:
  assumes "stops (Droplets_List A c opts)"
  shows "\<exists>r. dropletsFetch_loop A c opts dl = Some (r, c @ [ListCall opts])"
  using assms
  by (subst dropletsFetch_loop.simps) (auto simp: stops_def split: option.splits sum.splits)

lemma loop_pages:
  assumes "ps \<noteq> []"
      and "list_all has_next_page (butlast ps)"
      and "is_last_page (last ps)"
      and "\<forall>k<length ps. \<forall>log opts. listCount log = listCount c + k \<longrightarrow> Droplets_List A log opts = ps ! k"
  shows "\<exists>calls. length calls = length ps \<and>
           dropletsFetch_loop A c opts dl =
             Some ((dl @ concat (map res_droplets ps), None), c @ map ListCall calls)"
  using assms
proof (induction ps arbitrary: c opts dl)
  case Nil
  then show ?case by simp
next
  case (Cons r rest)
  have r: "Droplets_List A c opts = r" using Cons.prems(4) by force
  show ?case
  proof (cases "rest = []")
    case True
    then have "is_last_page r" using Cons.prems(3) by simp
    then have "dropletsFetch_loop A c opts dl = Some ((dl @ res_droplets r, None), c @ map ListCall [opts])"
      using loop_last [of A c opts dl] r by simp
    then show ?thesis using True by (intro exI [of _ "[opts]"]) simp
  next
    case False
    then have nx: "has_next_page r" and rest1: "list_all has_next_page (butlast rest)"
      and rest2: "is_last_page (last rest)"
      using Cons.prems(2,3) by simp_all
    from loop_next [of A c opts dl] nx r obtain page where
      step: "dropletsFetch_loop A c opts dl =
             dropletsFetch_loop A (c @ [ListCall opts]) (opts\<lparr>Page := page + 1\<rparr>) (dl @ res_droplets r)"
      by auto
    have shift: "\<forall>k<length rest. \<forall>log opts'. listCount log = listCount (c @ [ListCall opts]) + k
                   \<longrightarrow> Droplets_List A log opts' = rest ! k"
    proof (intro allI impI)
      fix k log opts'
      assume k: "k < length rest" and l: "listCount log = listCount (c @ [ListCall opts]) + k"
      then have "Droplets_List A log opts' = (r # rest) ! Suc k"
        using Cons.prems(4) by (metis Suc_less_eq add_Suc_shift length_Cons listCount_snoc_List)
      then show "Droplets_List A log opts' = rest ! k" by simp
    qed
    from Cons.IH [OF False rest1 rest2 shift, of "opts\<lparr>Page := page + 1\<rparr>" "dl @ res_droplets r"]
    obtain calls where calls: "length calls = length rest"
      "dropletsFetch_loop A (c @ [ListCall opts]) (opts\<lparr>Page := page + 1\<rparr>) (dl @ res_droplets r)
       = Some (((dl @ res_droplets r) @ concat (map res_droplets rest), None),
               (c @ [ListCall opts]) @ map ListCall calls)"
      by blast
    show ?thesis
      using step calls by (intro exI [of _ "opts # calls"]) simp
  qed
qed

lemma loop_cong_Some:
  assumes run: "dropletsFetch_loop B c opts dl = Some y"
  shows "Droplets_List B = Droplets_List B' \<longrightarrow> dropletsFetch_loop B' c opts dl = Some y"
proof (rule dropletsFetch_loop.raw_induct
    [where P = "\<lambda>A c opts dl y. Droplets_List A = Droplets_List B' \<longrightarrow>
                   dropletsFetch_loop B' c opts dl = Some y", OF _ run])
  fix f A c opts dl y
  assume IH: "\<And>A c opts dl y. f A c opts dl = Some y \<Longrightarrow>
                Droplets_List A = Droplets_List B' \<longrightarrow> dropletsFetch_loop B' c opts dl = Some y"
    and step: "(if res_err (Droplets_List A c opts) \<noteq> None
      then Some ((dl, res_err (Droplets_List A c opts)), c @ [ListCall opts])
      else if res_Links (Droplets_List A c opts) = None
              \<or> IsLastPage (the (res_Links (Droplets_List A c opts)))
      then Some ((append_each dl (res_droplets (Droplets_List A c opts)), None),
                 c @ [ListCall opts])
      else (case CurrentPage (the (res_Links (Droplets_List A c opts))) of
              Inl e \<Rightarrow>
                Some ((append_each dl (res_droplets (Droplets_List A c opts)), Some e),
                      c @ [ListCall opts])
            | Inr page \<Rightarrow>
                f A (c @ [ListCall opts]) (opts\<lparr>Page := page + 1\<rparr>)
                  (append_each dl (res_droplets (Droplets_List A c opts))))) = Some y"
  show "Droplets_List A = Droplets_List B' \<longrightarrow> dropletsFetch_loop B' c opts dl = Some y"
  proof
    assume eq: "Droplets_List A = Droplets_List B'"
    show "dropletsFetch_loop B' c opts dl = Some y"
      using step IH eq
      by (subst dropletsFetch_loop.simps) (auto split: if_splits sum.splits)
  qed
qed

lemma loop_cong:
  assumes "Droplets_List A' = Droplets_List A"
  shows "dropletsFetch_loop A' c opts dl = dropletsFetch_loop A c opts dl"
proof (cases "dropletsFetch_loop A' c opts dl")
  case None
  show ?thesis
  proof (cases "dropletsFetch_loop A c opts dl")
    case None
    with \<open>dropletsFetch_loop A' c opts dl = None\<close> show ?thesis by simp
  next
    case (Some y)
    from loop_cong_Some [OF Some, of A'] assms have "dropletsFetch_loop A' c opts dl = Some y" by simp
    with None show ?thesis by simp
  qed
next
  case (Some y)
  from loop_cong_Some [OF Some, of A] assms show ?thesis using Some by simp
qed

lemma loop_step_error:
  "res_err (Droplets_List A c opts) = Some e \<Longrightarrow>
   dropletsFetch_loop A c opts dl = Some ((dl, Some e), c @ [ListCall opts])"
  by (subst dropletsFetch_loop.simps) simp

lemma loop_step_next:
  "res_err (Droplets_List A c opts) = None \<Longrightarrow>
   res_Links (Droplets_List A c opts) = Some l \<Longrightarrow> \<not> IsLastPage l \<Longrightarrow>
   CurrentPage l = Inr page \<Longrightarrow>
   dropletsFetch_loop A c opts dl =
     dropletsFetch_loop A (c @ [ListCall opts]) (opts\<lparr>Page := page + 1\<rparr>)
       (dl @ res_droplets (Droplets_List A c opts))"
  by (subst dropletsFetch_loop.simps) (simp add: append_each_eq)

lemma loop_step_parse_error:
  "res_err (Droplets_List A c opts) = None \<Longrightarrow>
   res_Links (Droplets_List A c opts) = Some l \<Longrightarrow> \<not> IsLastPage l \<Longrightarrow>
   CurrentPage l = Inl e \<Longrightarrow>
   dropletsFetch_loop A c opts dl =
     Some ((dl @ res_droplets (Droplets_List A c opts), Some e), c @ [ListCall opts])"
  by (subst dropletsFetch_loop.simps) (simp add: append_each_eq)

lemma loop_pages_then_error:
  assumes "list_all has_next_page ps"
      and "\<forall>k<length ps. \<forall>log opts. listCount log = listCount c + k \<longrightarrow> Droplets_List A log opts = ps ! k"
      and "\<forall>log opts. listCount log = listCount c + length ps \<longrightarrow> res_err (Droplets_List A log opts) = Some e"
  shows "\<exists>calls. length calls = Suc (length ps) \<and>
           dropletsFetch_loop A c opts dl =
             Some ((dl @ concat (map res_droplets ps), Some e), c @ map ListCall calls)"
  using assms
proof (induction ps arbitrary: c opts dl)
  case Nil
  then have "res_err (Droplets_List A c opts) = Some e" by simp
  from loop_step_error [OF this, of dl] show ?case
    by (intro exI [of _ "[opts]"]) simp
next
  case (Cons r rest)
  have r: "Droplets_List A c opts = r" using Cons.prems(2) by force
  have nx: "has_next_page r" and rest1: "list_all has_next_page rest"
    using Cons.prems(1) by simp_all
  from loop_next [of A c opts dl] nx r obtain page where
    step: "dropletsFetch_loop A c opts dl =
           dropletsFetch_loop A (c @ [ListCall opts]) (opts\<lparr>Page := page + 1\<rparr>) (dl @ res_droplets r)"
    by auto
  have shift: "\<forall>k<length rest. \<forall>log opts'. listCount log = listCount (c @ [ListCall opts]) + k
                 \<longrightarrow> Droplets_List A log opts' = rest ! k"
  proof (intro allI impI)
    fix k log opts'
    assume k: "k < length rest" and l: "listCount log = listCount (c @ [ListCall opts]) + k"
    then have "Droplets_List A log opts' = (r # rest) ! Suc k"
      using Cons.prems(2) by (metis Suc_less_eq add_Suc_shift length_Cons listCount_snoc_List)
    then show "Droplets_List A log opts' = rest ! k" by simp
  qed
  have fail: "\<forall>log opts'. listCount log = listCount (c @ [ListCall opts]) + length rest
                 \<longrightarrow> res_err (Droplets_List A log opts') = Some e"
    using Cons.prems(3) by simp
  from Cons.IH [OF rest1 shift fail, of "opts\<lparr>Page := page + 1\<rparr>" "dl @ res_droplets r"]
  obtain calls where calls: "length calls = Suc (length rest)"
    "dropletsFetch_loop A (c @ [ListCall opts]) (opts\<lparr>Page := page + 1\<rparr>) (dl @ res_droplets r)
     = Some (((dl @ res_droplets r) @ concat (map res_droplets rest), Some e),
             (c @ [ListCall opts]) @ map ListCall calls)"
    by blast
  show ?case
    using step calls by (intro exI [of _ "opts # calls"]) simp
qed

lemma loop_terminates_calls:
  assumes "\<forall>log opts. listCount log = n \<longrightarrow> stops (Droplets_List A log opts)"
      and "listCount c \<le> n"
  shows "\<exists>r calls. dropletsFetch_loop A c opts dl = Some (r, c @ map ListCall calls) \<and>
           listCount c + length calls \<le> Suc n"
  using assms(2)
proof (induction "n - listCount c" arbitrary: c opts dl)
  case 0
  then have "listCount c = n" by simp
  then have "stops (Droplets_List A c opts)" using assms(1) by simp
  from loop_stops [OF this, of dl] obtain r where
    "dropletsFetch_loop A c opts dl = Some (r, c @ map ListCall [opts])" by auto
  then show ?case using \<open>listCount c = n\<close> by (intro exI [of _ r] exI [of _ "[opts]"]) simp
next
  case (Suc m)
  then have lt: "listCount c < n" by simp
  show ?case
  proof (cases "stops (Droplets_List A c opts)")
    case True
    from loop_stops [OF this, of dl] obtain r where
      "dropletsFetch_loop A c opts dl = Some (r, c @ map ListCall [opts])" by auto
    then show ?thesis using lt by (intro exI [of _ r] exI [of _ "[opts]"]) simp
  next
    case False
    then have "has_next_page (Droplets_List A c opts)"
      by (auto simp: stops_def has_next_page_def split: option.splits sum.splits)
    from loop_next [OF this, of dl] obtain page where
      step: "dropletsFetch_loop A c opts dl =
             dropletsFetch_loop A (c @ [ListCall opts]) (opts\<lparr>Page := page + 1\<rparr>)
               (dl @ res_droplets (Droplets_List A c opts))"
      by blast
    have m: "m = n - listCount (c @ [ListCall opts])" using Suc.hyps(2) by simp
    have le: "listCount (c @ [ListCall opts]) \<le> n" using lt by simp
    from Suc.hyps(1) [OF m le, of "opts\<lparr>Page := page + 1\<rparr>" "dl @ res_droplets (Droplets_List A c opts)"]
    obtain r calls where rc:
      "dropletsFetch_loop A (c @ [ListCall opts]) (opts\<lparr>Page := page + 1\<rparr>)
         (dl @ res_droplets (Droplets_List A c opts)) = Some (r, (c @ [ListCall opts]) @ map ListCall calls)"
      "listCount (c @ [ListCall opts]) + length calls \<le> Suc n"
      by blast
    show ?thesis
      using step rc by (intro exI [of _ r] exI [of _ "opts # calls"]) simp
  qed
qed

lemma Refresh_after_fetch:
  assumes "client w = Some c" and "dropletsFetch A c = Some ((ds, e), c')"
  shows "Refresh A w =
         Some (w\<lparr>itemCount := (if e = None then int (length ds) else 0),
                 client := Some c', droplets := ds, err := e\<rparr>)"
  using assms by (cases e) (simp_all add: Refresh_def Fetch_def SetItemCount_def display_def)

lemma Refresh_cong:
  assumes "Droplets_List A' = Droplets_List A"
  shows "Refresh A' w = Refresh A w"
proof -
  have eq: "dropletsFetch A' = dropletsFetch A"
    by (intro ext) (simp add: dropletsFetch_def loop_cong [OF assms])
  show ?thesis unfolding Refresh_def Fetch_def eq by (rule refl)
qed

text \<open>A service that always reports a further page keeps the loop running for ever.\<close>

lemma dropletsFetch_loop_diverges:
  assumes "\<forall>log opts. has_next_page (Droplets_List A log opts)"
  shows "dropletsFetch_loop A c opts dl = None"
proof (cases "dropletsFetch_loop A c opts dl")
  case None then show ?thesis .
next
  case (Some y)
  have "dropletsFetch_loop A c opts dl = Some y \<Longrightarrow> (\<forall>log opts. has_next_page (Droplets_List A log opts)) \<longrightarrow> False"
  proof (rule dropletsFetch_loop.raw_induct
      [where P = "\<lambda>A c opts dl y. (\<forall>log opts. has_next_page (Droplets_List A log opts)) \<longrightarrow> False"])
    fix f A c opts dl y
    assume IH: "\<And>A c opts dl y. f A c opts dl = Some y \<Longrightarrow>
                (\<forall>log opts. has_next_page (Droplets_List A log opts)) \<longrightarrow> False"
    and step: "(if res_err (Droplets_List A c opts) \<noteq> None
      then Some ((dl, res_err (Droplets_List A c opts)), c @ [ListCall opts])
      else if res_Links (Droplets_List A c opts) = None
              \<or> IsLastPage (the (res_Links (Droplets_List A c opts)))
      then Some ((append_each dl (res_droplets (Droplets_List A c opts)), None),
                 c @ [ListCall opts])
      else (case CurrentPage (the (res_Links (Droplets_List A c opts))) of
              Inl e \<Rightarrow>
                Some ((append_each dl (res_droplets (Droplets_List A c opts)), Some e),
                      c @ [ListCall opts])
            | Inr page \<Rightarrow>
                f A (c @ [ListCall opts]) (opts\<lparr>Page := page + 1\<rparr>)
                  (append_each dl (res_droplets (Droplets_List A c opts))))) = Some y"
    show "(\<forall>log opts. has_next_page (Droplets_List A log opts)) \<longrightarrow> False"
    proof
      assume all: "\<forall>log opts. has_next_page (Droplets_List A log opts)"
      then have "has_next_page (Droplets_List A c opts)" by simp
      then obtain l page where "res_err (Droplets_List A c opts) = None"
        "res_Links (Droplets_List A c opts) = Some l" "\<not> IsLastPage l" "CurrentPage l = Inr page"
        by (auto simp: has_next_page_def split: option.splits sum.splits)
      with step have "f A (c @ [ListCall opts]) (opts\<lparr>Page := page + 1\<rparr>)
                  (append_each dl (res_droplets (Droplets_List A c opts))) = Some y"
        by simp
      from IH [OF this] all show False by blast
    qed
  qed
  with Some assms show ?thesis by simp
qed

lemma listCount_Nil [simp]: "listCount [] = 0"
  by (simp add: listCount_def)

text \<open>The facts that run the loop on a scripted service.\<close>

lemmas eval_loop = dropletsFetch_def loop_step_error loop_step_next loop_step_parse_error loop_last
  is_last_page_def scripted_def listCount_def pageWithNext_def pageWithoutLinks_def failedList_def

lemma Refresh_err:
  assumes "Refresh A w = Some w'"
  shows "\<exists>r. Fetch A w = Some r \<and> err w' = fst r"
proof (cases "Fetch A w")
  case None
  with assms show ?thesis by (simp add: Refresh_def)
next
  case (Some r)
  with assms show ?thesis
    by (auto simp: Refresh_def SetItemCount_def display_def split: if_splits)
qed

lemma dropletDestroy_selected:
  assumes "currentDroplet w = Inr (Some d)" and "client w = Some c"
  shows "dropletDestroy A w =
         CallsRefresh
           (w\<lparr>client := Some (c @ [DeleteCall (ID d)]),
              droplets := butlast ((droplets w)[nat (Selected w) := last (droplets w)])\<rparr>)
           (Refresh A (w\<lparr>client := Some (c @ [DeleteCall (ID d)]),
              droplets := butlast ((droplets w)[nat (Selected w) := last (droplets w)])\<rparr>))"
proof -
  from assms(1) have r: "0 \<le> Selected w" "Selected w < int (length (droplets w))"
    by (simp_all add: currentDroplet_Some_iff)
  let ?w1 = "w\<lparr>client := Some (c @ [DeleteCall (ID d)])\<rparr>"
  have "dropletRemoveSelected ?w1 =
        Inr (?w1\<lparr>droplets := butlast ((droplets ?w1)[nat (Selected ?w1) := last (droplets ?w1)])\<rparr>)"
    using r by (intro dropletRemoveSelected_in_range) simp_all
  then show ?thesis using assms by (simp add: dropletDestroy_def)
qed

section \<open>Claims about the selection and the removal\<close>

text \<open>
  Claim C6. For an empty collection, and for a cursor at or beyond the collection's
  length, \<^verbatim>\<open>currentDroplet\<close> returns nil and indexes nothing; for a non-empty collection
  and a cursor within \<open>0 \<le> Selected < len\<close> it returns the record at the cursor.
\<close>

theorem currentDroplet_absent_or_record:
  "(droplets w = [] \<or> int (length (droplets w)) \<le> Selected w \<longrightarrow> currentDroplet w = Inr None) \<and>
   (droplets w \<noteq> [] \<and> 0 \<le> Selected w \<and> Selected w < int (length (droplets w)) \<longrightarrow>
      currentDroplet w = Inr (Some (droplets w ! nat (Selected w))))"
  using currentDroplet_none [of w] currentDroplet_in_range [of w] by blast

theorem currentDroplet_absent_or_record_witness:
  "currentDroplet (widgetWith [] 0) = Inr None \<and>
   currentDroplet (widgetWith [dropletA, dropletB] 2) = Inr None \<and>
   currentDroplet (widgetWith [dropletA, dropletB] 1) = Inr (Some dropletB)"
  using currentDroplet_absent_or_record [of "widgetWith [] 0"]
        currentDroplet_absent_or_record [of "widgetWith [dropletA, dropletB] 2"]
        currentDroplet_absent_or_record [of "widgetWith [dropletA, dropletB] 1"]
  by (simp add: widgetWith_def)

text \<open>
  Claim C4. For a non-empty collection and a cursor in range, \<^verbatim>\<open>dropletRemoveSelected\<close>
  returns normally with the collection in which the last record has been written at the
  cursor position and the last position has been cut off; no other field changes, so the
  cursor keeps its number. From \<open>[a, b, c, d]\<close> with cursor 1 the collection becomes
  \<open>[a, d, c]\<close>, the cursor is still 1 and the current droplet is \<open>d\<close>.
\<close>

theorem dropletRemoveSelected_swap_remove:
  "(droplets w \<noteq> [] \<and> 0 \<le> Selected w \<and> Selected w < int (length (droplets w)) \<longrightarrow>
      dropletRemoveSelected w =
        Inr (w\<lparr>droplets := butlast ((droplets w)[nat (Selected w) := last (droplets w)])\<rparr>)) \<and>
   dropletRemoveSelected (widgetWith [a, b, c, d] 1)
     = Inr ((widgetWith [a, b, c, d] 1)\<lparr>droplets := [a, d, c]\<rparr>) \<and>
   Selected ((widgetWith [a, b, c, d] 1)\<lparr>droplets := [a, d, c]\<rparr>) = 1 \<and>
   currentDroplet ((widgetWith [a, b, c, d] 1)\<lparr>droplets := [a, d, c]\<rparr>) = Inr (Some d)"
proof -
  have "dropletRemoveSelected (widgetWith [a, b, c, d] 1)
        = Inr ((widgetWith [a, b, c, d] 1)\<lparr>droplets := [a, d, c]\<rparr>)"
    using dropletRemoveSelected_in_range [of "widgetWith [a, b, c, d] 1"]
    by (simp add: widgetWith_def)
  moreover have "currentDroplet ((widgetWith [a, b, c, d] 1)\<lparr>droplets := [a, d, c]\<rparr>) = Inr (Some d)"
    using currentDroplet_in_range [of "(widgetWith [a, b, c, d] 1)\<lparr>droplets := [a, d, c]\<rparr>"]
    by (simp add: widgetWith_def)
  ultimately show ?thesis
    using dropletRemoveSelected_in_range [of w] by (simp add: widgetWith_def)
qed

theorem dropletRemoveSelected_swap_remove_witness:
  "dropletRemoveSelected (widgetWith [dropletA, dropletB, dropletC] 0)
     = Inr ((widgetWith [dropletA, dropletB, dropletC] 0)\<lparr>droplets := [dropletC, dropletB]\<rparr>) \<and>
   dropletRemoveSelected (widgetWith [dropletA, dropletB, dropletC, dropletD] 1)
     = Inr ((widgetWith [dropletA, dropletB, dropletC, dropletD] 1)\<lparr>droplets := [dropletA, dropletD, dropletC]\<rparr>)"
  using dropletRemoveSelected_swap_remove [of "widgetWith [dropletA, dropletB, dropletC] 0" dropletA dropletB dropletC dropletD]
  by (simp add: widgetWith_def)

text \<open>
  Claim C10. \<^verbatim>\<open>dropletRemoveSelected\<close> returns the widget as it was when no droplet is
  current (empty collection, cursor at or beyond the length). When the guard finds a
  current droplet, the collection is non-empty and the cursor lies within
  \<open>0 \<le> Selected < len\<close>, so the read at the cursor and the read at the last index both
  succeed and the method returns without a panic; a result that differs from the input
  only arises from such a state. From a single record with cursor 0 the result is the
  empty collection.
\<close>

theorem dropletRemoveSelected_guarded:
  "(droplets w = [] \<or> int (length (droplets w)) \<le> Selected w \<longrightarrow> dropletRemoveSelected w = Inr w) \<and>
   (currentDroplet w = Inr None \<longrightarrow> dropletRemoveSelected w = Inr w) \<and>
   (\<forall>d. currentDroplet w = Inr (Some d) \<longrightarrow>
      droplets w \<noteq> [] \<and> 0 \<le> Selected w \<and> Selected w < int (length (droplets w)) \<and>
      index (droplets w) (Selected w) = Inr (droplets w ! nat (Selected w)) \<and>
      index (droplets w) (int (length (droplets w)) - 1) = Inr (last (droplets w)) \<and>
      (\<exists>w'. dropletRemoveSelected w = Inr w')) \<and>
   (\<forall>w'. dropletRemoveSelected w = Inr w' \<and> w' \<noteq> w \<longrightarrow>
      droplets w \<noteq> [] \<and> 0 \<le> Selected w \<and> Selected w < int (length (droplets w))) \<and>
   (\<forall>d. droplets w = [d] \<and> Selected w = 0 \<longrightarrow> dropletRemoveSelected w = Inr (w\<lparr>droplets := []\<rparr>))"
proof (intro conjI allI impI)
  assume "droplets w = [] \<or> int (length (droplets w)) \<le> Selected w"
  then show "dropletRemoveSelected w = Inr w"
    using currentDroplet_none dropletRemoveSelected_none by blast
next
  assume "currentDroplet w = Inr None"
  then show "dropletRemoveSelected w = Inr w" by (rule dropletRemoveSelected_none)
next
  fix d assume cur: "currentDroplet w = Inr (Some d)"
  then have r: "0 \<le> Selected w" "Selected w < int (length (droplets w))"
    by (simp_all add: currentDroplet_Some_iff)
  then show ne: "droplets w \<noteq> []" by auto
  show "0 \<le> Selected w" "Selected w < int (length (droplets w))" by fact+
  show "index (droplets w) (Selected w) = Inr (droplets w ! nat (Selected w))"
    using r by (simp add: index_def)
  show "index (droplets w) (int (length (droplets w)) - 1) = Inr (last (droplets w))"
    using ne by (simp add: index_def last_conv_nth nat_diff_distrib')
  show "\<exists>w'. dropletRemoveSelected w = Inr w'"
    using dropletRemoveSelected_in_range [OF r] by blast
next
  fix w' assume a: "dropletRemoveSelected w = Inr w' \<and> w' \<noteq> w"
  have "\<exists>d. currentDroplet w = Inr (Some d)"
  proof (cases "currentDroplet w")
    case (Inl p)
    then show ?thesis using a by (simp add: dropletRemoveSelected_def)
  next
    case (Inr od)
    then show ?thesis using a dropletRemoveSelected_none [of w] by (cases od) auto
  qed
  then have r: "0 \<le> Selected w" "Selected w < int (length (droplets w))"
    by (auto simp: currentDroplet_Some_iff)
  then show "droplets w \<noteq> []" by auto
  show "0 \<le> Selected w" "Selected w < int (length (droplets w))" by fact+
next
  fix d assume "droplets w = [d] \<and> Selected w = 0"
  then show "dropletRemoveSelected w = Inr (w\<lparr>droplets := []\<rparr>)"
    using dropletRemoveSelected_in_range [of w] by simp
qed

theorem dropletRemoveSelected_guarded_witness:
  "dropletRemoveSelected (widgetWith [] 0) = Inr (widgetWith [] 0) \<and>
   dropletRemoveSelected (widgetWith [dropletA] 1) = Inr (widgetWith [dropletA] 1) \<and>
   dropletRemoveSelected (widgetWith [dropletA] 0) = Inr ((widgetWith [dropletA] 0)\<lparr>droplets := []\<rparr>) \<and>
   index (droplets (widgetWith [dropletA] 0)) (Selected (widgetWith [dropletA] 0)) = Inr dropletA"
  using dropletRemoveSelected_guarded [of "widgetWith [] 0"]
        dropletRemoveSelected_guarded [of "widgetWith [dropletA] 1"]
        dropletRemoveSelected_guarded [of "widgetWith [dropletA] 0"]
  by (simp add: widgetWith_def currentDroplet_def index_def)

text \<open>
  Claim C2 asks that after \<^verbatim>\<open>dropletRemoveSelected\<close> the cursor be strictly below the new
  length. With three records and the cursor on the last one, the method leaves two
  records and the cursor at 2.
\<close>

theorem dropletRemoveSelected_cursor_counterexample:
  "dropletRemoveSelected (widgetWith [dropletA, dropletB, dropletC] 2)
     = Inr ((widgetWith [dropletA, dropletB, dropletC] 2)\<lparr>droplets := [dropletA, dropletB]\<rparr>) \<and>
   \<not> Selected ((widgetWith [dropletA, dropletB, dropletC] 2)\<lparr>droplets := [dropletA, dropletB]\<rparr>)
       < int (length (droplets ((widgetWith [dropletA, dropletB, dropletC] 2)\<lparr>droplets := [dropletA, dropletB]\<rparr>)))"
  using dropletRemoveSelected_in_range [of "widgetWith [dropletA, dropletB, dropletC] 2"]
  by (simp add: widgetWith_def)

text \<open>
  Claim C2, amended. From a non-empty collection and a cursor in range,
  \<^verbatim>\<open>dropletRemoveSelected\<close> returns with the cursor unchanged and the collection one
  shorter, so the cursor is at most the new length; it is strictly below the new length
  exactly when it was not on the last record. The method does not move the cursor: when
  the cursor equals the new length \<^verbatim>\<open>currentDroplet\<close> returns nil, and otherwise it
  returns the record at the cursor.
\<close>

theorem dropletRemoveSelected_cursor_bound:
  "droplets w \<noteq> [] \<and> 0 \<le> Selected w \<and> Selected w < int (length (droplets w)) \<longrightarrow>
     (\<exists>w'. dropletRemoveSelected w = Inr w' \<and>
        Selected w' = Selected w \<and>
        length (droplets w') = length (droplets w) - 1 \<and>
        Selected w' \<le> int (length (droplets w')) \<and>
        (Selected w' < int (length (droplets w')) \<longleftrightarrow> Selected w < int (length (droplets w)) - 1) \<and>
        (Selected w' = int (length (droplets w')) \<longrightarrow> currentDroplet w' = Inr None) \<and>
        (Selected w' < int (length (droplets w')) \<longrightarrow>
           currentDroplet w' = Inr (Some (droplets w' ! nat (Selected w')))))"
proof
  assume a: "droplets w \<noteq> [] \<and> 0 \<le> Selected w \<and> Selected w < int (length (droplets w))"
  let ?w' = "w\<lparr>droplets := butlast ((droplets w)[nat (Selected w) := last (droplets w)])\<rparr>"
  have rm: "dropletRemoveSelected w = Inr ?w'"
    using a dropletRemoveSelected_in_range [of w] by simp
  have len: "length (droplets ?w') = length (droplets w) - 1" by simp
  have sel: "Selected ?w' = Selected w" by simp
  have le: "Selected ?w' \<le> int (length (droplets ?w'))" using a by auto
  have iff: "Selected ?w' < int (length (droplets ?w')) \<longleftrightarrow> Selected w < int (length (droplets w)) - 1"
    using a by auto
  have none: "Selected ?w' = int (length (droplets ?w')) \<longrightarrow> currentDroplet ?w' = Inr None"
  proof
    assume "Selected ?w' = int (length (droplets ?w'))"
    then have "int (length (droplets ?w')) \<le> Selected ?w'" by simp
    then show "currentDroplet ?w' = Inr None" by (rule currentDroplet_none [OF disjI2])
  qed
  have some: "Selected ?w' < int (length (droplets ?w')) \<longrightarrow>
           currentDroplet ?w' = Inr (Some (droplets ?w' ! nat (Selected ?w')))"
    using currentDroplet_in_range [of ?w'] a by simp
  show "\<exists>w'. dropletRemoveSelected w = Inr w' \<and>
        Selected w' = Selected w \<and>
        length (droplets w') = length (droplets w) - 1 \<and>
        Selected w' \<le> int (length (droplets w')) \<and>
        (Selected w' < int (length (droplets w')) \<longleftrightarrow> Selected w < int (length (droplets w)) - 1) \<and>
        (Selected w' = int (length (droplets w')) \<longrightarrow> currentDroplet w' = Inr None) \<and>
        (Selected w' < int (length (droplets w')) \<longrightarrow>
           currentDroplet w' = Inr (Some (droplets w' ! nat (Selected w'))))"
    using rm len sel le iff none some by blast
qed

theorem dropletRemoveSelected_cursor_bound_witness:
  "\<exists>w'. dropletRemoveSelected (widgetWith [dropletA, dropletB, dropletC] 2) = Inr w' \<and>
      Selected w' = 2 \<and> length (droplets w') = 2 \<and> currentDroplet w' = Inr None"
  using dropletRemoveSelected_cursor_bound [of "widgetWith [dropletA, dropletB, dropletC] 2"]
  by (auto simp: widgetWith_def)

section \<open>Claims about fetching, refreshing and the actions\<close>

text \<open>
  Claim C1 asks that after a failed refresh the collection be empty. A service whose
  first page holds one droplet and whose second listing call fails leaves that droplet in
  the collection, while the item count is 0 and the error is recorded.
\<close>

theorem Refresh_failed_fetch_counterexample:
  "dropletsFetch (scripted [pageWithNext [dropletA] 1] (failedList (errors_New ''boom'')) None) []
     = Some (([dropletA], Some (errors_New ''boom'')),
             [ListCall \<lparr>Page = 0, PerPage = 0\<rparr>, ListCall \<lparr>Page = 2, PerPage = 0\<rparr>]) \<and>
   Refresh (scripted [pageWithNext [dropletA] 1] (failedList (errors_New ''boom'')) None) (widgetWith [] 0)
     = Some \<lparr>Selected = 0, itemCount = 0,
             client = Some [ListCall \<lparr>Page = 0, PerPage = 0\<rparr>, ListCall \<lparr>Page = 2, PerPage = 0\<rparr>],
             droplets = [dropletA], err = Some (errors_New ''boom'')\<rparr> \<and>
   [dropletA] \<noteq> []"
  by (simp add: Refresh_def Fetch_def widgetWith_def SetItemCount_def display_def eval_loop)


text \<open>
  Claim C1, amended. When the paginated fetch of a refresh returns an error, \<^verbatim>\<open>Refresh\<close>
  returns with the item count set to zero, the last-error slot holding that error, and
  the collection replaced by the list that the fetch returned with the error. When the
  service has answered with pages that each report a further page and then with an error,
  that list is the concatenation of those pages: the records fetched before the error are
  retained.
\<close>

theorem Refresh_failed_fetch:
  "(client w = Some c \<and> dropletsFetch A c = Some ((ds, Some e), c') \<longrightarrow>
      Refresh A w = Some (w\<lparr>itemCount := 0, client := Some c', droplets := ds, err := Some e\<rparr>)) \<and>
   (client w = Some c \<and> list_all has_next_page ps \<and>
    (\<forall>k<length ps. \<forall>log opts. listCount log = listCount c + k \<longrightarrow> Droplets_List A log opts = ps ! k) \<and>
    (\<forall>log opts. listCount log = listCount c + length ps \<longrightarrow> res_err (Droplets_List A log opts) = Some e) \<longrightarrow>
      (\<exists>calls. length calls = Suc (length ps) \<and>
         Refresh A w = Some (w\<lparr>itemCount := 0, client := Some (c @ map ListCall calls),
                               droplets := concat (map res_droplets ps), err := Some e\<rparr>)))"
proof (intro conjI impI)
  assume "client w = Some c \<and> dropletsFetch A c = Some ((ds, Some e), c')"
  then show "Refresh A w = Some (w\<lparr>itemCount := 0, client := Some c', droplets := ds, err := Some e\<rparr>)"
    using Refresh_after_fetch [of w c A ds "Some e" c'] by simp
next
  assume a: "client w = Some c \<and> list_all has_next_page ps \<and>
    (\<forall>k<length ps. \<forall>log opts. listCount log = listCount c + k \<longrightarrow> Droplets_List A log opts = ps ! k) \<and>
    (\<forall>log opts. listCount log = listCount c + length ps \<longrightarrow> res_err (Droplets_List A log opts) = Some e)"
  then obtain calls where calls: "length calls = Suc (length ps)"
    "dropletsFetch A c = Some ((concat (map res_droplets ps), Some e), c @ map ListCall calls)"
    using loop_pages_then_error [of ps c A e "\<lparr>Page = 0, PerPage = 0\<rparr>" "[]"]
    by (auto simp: dropletsFetch_def)
  from a have "client w = Some c" by simp
  from Refresh_after_fetch [OF this calls(2)] calls(1)
  show "\<exists>calls. length calls = Suc (length ps) \<and>
         Refresh A w = Some (w\<lparr>itemCount := 0, client := Some (c @ map ListCall calls),
                               droplets := concat (map res_droplets ps), err := Some e\<rparr>)"
    by auto
qed

theorem Refresh_failed_fetch_witness:
  "Refresh (scripted [pageWithNext [dropletA, dropletB] 1] (failedList (errors_New ''timeout'')) None)
     (widgetWith [dropletC] 0)
   = Some \<lparr>Selected = 0, itemCount = 0,
           client = Some [ListCall \<lparr>Page = 0, PerPage = 0\<rparr>, ListCall \<lparr>Page = 2, PerPage = 0\<rparr>],
           droplets = [dropletA, dropletB], err = Some (errors_New ''timeout'')\<rparr>"
  using Refresh_failed_fetch
    [of "widgetWith [dropletC] 0" "[]"
        "scripted [pageWithNext [dropletA, dropletB] 1] (failedList (errors_New ''timeout'')) None"
        "[dropletA, dropletB]" "errors_New ''timeout''"
        "[ListCall \<lparr>Page = 0, PerPage = 0\<rparr>, ListCall \<lparr>Page = 2, PerPage = 0\<rparr>]"
        "[pageWithNext [dropletA, dropletB] 1]"]
  by (simp add: widgetWith_def eval_loop)

text \<open>
  Claim C5. When the paginated fetch of a refresh succeeds, \<^verbatim>\<open>Refresh\<close> returns with
  the collection equal to the fetched sequence, whatever the collection was before, the
  item count equal to its length and the last-error slot nil.
\<close>

theorem Refresh_successful_fetch:
  "client w = Some c \<and> dropletsFetch A c = Some ((ds, None), c') \<longrightarrow>
     Refresh A w = Some (w\<lparr>itemCount := int (length ds), client := Some c', droplets := ds, err := None\<rparr>)"
  using Refresh_after_fetch [of w c A ds None c'] by simp

theorem Refresh_successful_fetch_witness:
  "Refresh (scripted [pageWithNext [dropletA] 1, pageWithoutLinks [dropletB]] (failedList (errors_New ''unused'')) None)
     ((widgetWith [dropletC, dropletD, dropletA] 0)\<lparr>err := Some (errors_New ''earlier'')\<rparr>)
   = Some \<lparr>Selected = 0, itemCount = 2,
           client = Some [ListCall \<lparr>Page = 0, PerPage = 0\<rparr>, ListCall \<lparr>Page = 2, PerPage = 0\<rparr>],
           droplets = [dropletA, dropletB], err = None\<rparr>"
  using Refresh_successful_fetch
    [of "(widgetWith [dropletC, dropletD, dropletA] 0)\<lparr>err := Some (errors_New ''earlier'')\<rparr>" "[]"
        "scripted [pageWithNext [dropletA] 1, pageWithoutLinks [dropletB]] (failedList (errors_New ''unused'')) None"
        "[dropletA, dropletB]"
        "[ListCall \<lparr>Page = 0, PerPage = 0\<rparr>, ListCall \<lparr>Page = 2, PerPage = 0\<rparr>]"]
  by (simp add: widgetWith_def eval_loop)

text \<open>
  Claim C3. Let the service answer the successive listing calls with the pages of a
  non-empty list, each page but the last reporting a further page (links present, not
  the last page, page number read) and the last one reporting none (nil links or the
  last-page marker). Then \<^verbatim>\<open>dropletsFetch\<close> returns
  the concatenation of the pages in order with a nil error, and the client's history has
  grown by exactly one listing call per page.
\<close>

theorem dropletsFetch_concatenates_pages:
  "ps \<noteq> [] \<and> list_all has_next_page (butlast ps) \<and> is_last_page (last ps) \<and>
   (\<forall>k<length ps. \<forall>log opts. listCount log = listCount c + k \<longrightarrow> Droplets_List A log opts = ps ! k) \<longrightarrow>
     (\<exists>calls. length calls = length ps \<and>
        dropletsFetch A c = Some ((concat (map res_droplets ps), None), c @ map ListCall calls))"
  using loop_pages [of ps c A "\<lparr>Page = 0, PerPage = 0\<rparr>" "[]"]
  by (auto simp: dropletsFetch_def)

theorem dropletsFetch_concatenates_pages_witness:
  "\<exists>calls. length calls = 3 \<and>
     dropletsFetch (scripted [pageWithNext [dropletA, dropletB] 1, pageWithNext [dropletC] 2,
                              \<lparr>res_droplets = [dropletD], res_Links = Some \<lparr>IsLastPage = True, CurrentPage = Inr 3\<rparr>,
                               res_err = None\<rparr>]
                      (pageWithNext [dropletA] 4) None) []
       = Some (([dropletA, dropletB, dropletC, dropletD], None), map ListCall calls)"
  using dropletsFetch_concatenates_pages
    [of "[pageWithNext [dropletA, dropletB] 1, pageWithNext [dropletC] 2,
          \<lparr>res_droplets = [dropletD], res_Links = Some \<lparr>IsLastPage = True, CurrentPage = Inr 3\<rparr>,
           res_err = None\<rparr>]" "[]"
        "scripted [pageWithNext [dropletA, dropletB] 1, pageWithNext [dropletC] 2,
                   \<lparr>res_droplets = [dropletD], res_Links = Some \<lparr>IsLastPage = True, CurrentPage = Inr 3\<rparr>,
                    res_err = None\<rparr>]
           (pageWithNext [dropletA] 4) None"]
  by (simp add: scripted_def pageWithNext_def has_next_page_def is_last_page_def numeral_3_eq_3)

text \<open>
  Claim C9. If the answer to the listing call number \<open>n\<close> (counting from 0 over the
  client's history) is an error, has nil links, carries the last-page marker or has an
  unreadable page number, then \<^verbatim>\<open>dropletsFetch\<close>, started at a history with at most
  \<open>n\<close> listing calls, returns, and the history then holds at most \<open>n + 1\<close> listing calls.
\<close>

theorem dropletsFetch_terminates:
  "(\<forall>log opts. listCount log = n \<longrightarrow> stops (Droplets_List A log opts)) \<and> listCount c \<le> n \<longrightarrow>
     (\<exists>r calls. dropletsFetch A c = Some (r, c @ map ListCall calls) \<and>
        listCount c + length calls \<le> Suc n)"
  using loop_terminates_calls [of n A c "\<lparr>Page = 0, PerPage = 0\<rparr>" "[]"]
  by (simp add: dropletsFetch_def)

theorem dropletsFetch_terminates_witness:
  "\<exists>r calls. dropletsFetch (scripted [pageWithNext [dropletA] 1, pageWithNext [dropletB] 7]
                     \<lparr>res_droplets = [], res_Links = Some \<lparr>IsLastPage = False,
                        CurrentPage = Inl (errors_New ''bad page'')\<rparr>, res_err = None\<rparr> None) []
       = Some (r, map ListCall calls) \<and> length calls \<le> 3"
  using dropletsFetch_terminates
    [of 2 "scripted [pageWithNext [dropletA] 1, pageWithNext [dropletB] 7]
                     \<lparr>res_droplets = [], res_Links = Some \<lparr>IsLastPage = False,
                        CurrentPage = Inl (errors_New ''bad page'')\<rparr>, res_err = None\<rparr> None" "[]"]
  by (simp add: scripted_def stops_def)

text \<open>
  Claim C7. With a droplet selected, \<^verbatim>\<open>dropletDestroy\<close> reaches its call of \<^verbatim>\<open>Refresh\<close>,
  and the widget on which \<^verbatim>\<open>Refresh\<close> is called is the one whose client has issued the
  delete call and whose collection has already lost the selected record by the
  swap-remove: it is one record shorter, and its last-error slot is as it was. The widget
  after the action is what \<^verbatim>\<open>Refresh\<close> returns there. This holds whatever the delete call
  returns: replacing the answers of the delete operation by any others changes nothing,
  neither the widget handed to \<^verbatim>\<open>Refresh\<close> nor the result. The last-error slot of the
  widget after the action is the error returned by the fetch of that refresh.
\<close>

theorem dropletDestroy_removes_then_refreshes:
  "currentDroplet w = Inr (Some d) \<and> client w = Some c \<longrightarrow>
     dropletDestroy A w =
       CallsRefresh
         (w\<lparr>client := Some (c @ [DeleteCall (ID d)]),
            droplets := butlast ((droplets w)[nat (Selected w) := last (droplets w)])\<rparr>)
         (Refresh A (w\<lparr>client := Some (c @ [DeleteCall (ID d)]),
            droplets := butlast ((droplets w)[nat (Selected w) := last (droplets w)])\<rparr>)) \<and>
     (\<forall>w2 r. dropletDestroy A w = CallsRefresh w2 r \<longrightarrow>
        length (droplets w2) = length (droplets w) - 1 \<and> droplets w2 \<noteq> droplets w \<and>
        err w2 = err w \<and> r = Refresh A w2) \<and>
     widget_after w (dropletDestroy A w) =
       lift_refresh (Refresh A (w\<lparr>client := Some (c @ [DeleteCall (ID d)]),
                                  droplets := butlast ((droplets w)[nat (Selected w) := last (droplets w)])\<rparr>)) \<and>
     (\<forall>f. dropletDestroy (A\<lparr>Droplets_Delete := f\<rparr>) w = dropletDestroy A w) \<and>
     (\<forall>w'. widget_after w (dropletDestroy A w) = Some (Inr w') \<longrightarrow>
        (\<exists>r. Fetch A (w\<lparr>client := Some (c @ [DeleteCall (ID d)]),
                         droplets := butlast ((droplets w)[nat (Selected w) := last (droplets w)])\<rparr>) = Some r \<and>
             err w' = fst r))"
proof
  assume a: "currentDroplet w = Inr (Some d) \<and> client w = Some c"
  let ?w2 = "w\<lparr>client := Some (c @ [DeleteCall (ID d)]),
               droplets := butlast ((droplets w)[nat (Selected w) := last (droplets w)])\<rparr>"
  have run: "dropletDestroy B w = CallsRefresh ?w2 (Refresh B ?w2)" for B
    using a dropletDestroy_selected by blast
  from a have ne: "droplets w \<noteq> []"
    by (auto simp: currentDroplet_Some_iff)
  have shorter: "length (droplets ?w2) = length (droplets w) - 1" by simp
  then have changed: "droplets ?w2 \<noteq> droplets w"
    using ne by (metis One_nat_def Suc_pred length_greater_0_conv n_not_Suc_n)
  have frame: "\<forall>w2 r. dropletDestroy A w = CallsRefresh w2 r \<longrightarrow>
        length (droplets w2) = length (droplets w) - 1 \<and> droplets w2 \<noteq> droplets w \<and>
        err w2 = err w \<and> r = Refresh A w2"
  proof (intro allI impI)
    fix w2 r assume "dropletDestroy A w = CallsRefresh w2 r"
    with run [of A] have "w2 = ?w2" and "r = Refresh A ?w2" by simp_all
    then show "length (droplets w2) = length (droplets w) - 1 \<and> droplets w2 \<noteq> droplets w \<and>
        err w2 = err w \<and> r = Refresh A w2"
      using shorter changed by simp
  qed
  have after: "widget_after w (dropletDestroy A w) = lift_refresh (Refresh A ?w2)"
    by (simp add: run)
  have indep: "\<forall>f. dropletDestroy (A\<lparr>Droplets_Delete := f\<rparr>) w = dropletDestroy A w"
  proof
    fix f
    have "Refresh (A\<lparr>Droplets_Delete := f\<rparr>) = Refresh A"
      by (intro ext Refresh_cong) simp
    then show "dropletDestroy (A\<lparr>Droplets_Delete := f\<rparr>) w = dropletDestroy A w"
      by (simp add: run)
  qed
  have slot: "\<forall>w'. widget_after w (dropletDestroy A w) = Some (Inr w') \<longrightarrow>
        (\<exists>r. Fetch A ?w2 = Some r \<and> err w' = fst r)"
  proof (intro allI impI)
    fix w' assume "widget_after w (dropletDestroy A w) = Some (Inr w')"
    with after have "Refresh A ?w2 = Some w'"
      by (simp add: lift_refresh_def split: option.splits)
    then show "\<exists>r. Fetch A ?w2 = Some r \<and> err w' = fst r" by (rule Refresh_err)
  qed
  show "dropletDestroy A w = CallsRefresh ?w2 (Refresh A ?w2) \<and>
     (\<forall>w2 r. dropletDestroy A w = CallsRefresh w2 r \<longrightarrow>
        length (droplets w2) = length (droplets w) - 1 \<and> droplets w2 \<noteq> droplets w \<and>
        err w2 = err w \<and> r = Refresh A w2) \<and>
     widget_after w (dropletDestroy A w) = lift_refresh (Refresh A ?w2) \<and>
     (\<forall>f. dropletDestroy (A\<lparr>Droplets_Delete := f\<rparr>) w = dropletDestroy A w) \<and>
     (\<forall>w'. widget_after w (dropletDestroy A w) = Some (Inr w') \<longrightarrow>
        (\<exists>r. Fetch A ?w2 = Some r \<and> err w' = fst r))"
    using run [of A] frame after indep slot by blast
qed

theorem dropletDestroy_removes_then_refreshes_witness:
  "dropletDestroy
     (scripted [pageWithoutLinks [dropletB, dropletC]] (failedList (errors_New ''unused''))
        (Some (errors_New ''delete failed'')))
     (widgetWith [dropletA, dropletB, dropletC] 0)
   = CallsRefresh
       \<lparr>Selected = 0, itemCount = 3, client = Some [DeleteCall 1],
          droplets = [dropletC, dropletB], err = None\<rparr>
       (Some \<lparr>Selected = 0, itemCount = 2,
               client = Some [DeleteCall 1, ListCall \<lparr>Page = 0, PerPage = 0\<rparr>],
               droplets = [dropletB, dropletC], err = None\<rparr>)"
  using dropletDestroy_removes_then_refreshes
    [of "widgetWith [dropletA, dropletB, dropletC] 0" dropletA "[]"
        "scripted [pageWithoutLinks [dropletB, dropletC]] (failedList (errors_New ''unused''))
           (Some (errors_New ''delete failed''))"]
  by (simp add: widgetWith_def currentDroplet_def index_def dropletA_def
        Refresh_def Fetch_def SetItemCount_def display_def eval_loop)

text \<open>
  Claim C8. With a droplet selected, enabling private networking, rebooting and shutting
  down each reach their call of \<^verbatim>\<open>Refresh\<close>, and the widget on which \<^verbatim>\<open>Refresh\<close> is
  called differs from the widget before the action only in the client's history, which
  has grown by the one remote call: collection, cursor, item count and last error are
  untouched. The widget after the action is what \<^verbatim>\<open>Refresh\<close> alone returns there.
\<close>

theorem actions_only_refresh:
  "currentDroplet w = Inr (Some d) \<and> client w = Some c \<longrightarrow>
     dropletEnabledPrivateNetworking A w =
       CallsRefresh (w\<lparr>client := Some (c @ [EnablePrivateNetworkingCall (ID d)])\<rparr>)
         (Refresh A (w\<lparr>client := Some (c @ [EnablePrivateNetworkingCall (ID d)])\<rparr>)) \<and>
     dropletRestart A w =
       CallsRefresh (w\<lparr>client := Some (c @ [RebootCall (ID d)])\<rparr>)
         (Refresh A (w\<lparr>client := Some (c @ [RebootCall (ID d)])\<rparr>)) \<and>
     dropletShutDown A w =
       CallsRefresh (w\<lparr>client := Some (c @ [ShutdownCall (ID d)])\<rparr>)
         (Refresh A (w\<lparr>client := Some (c @ [ShutdownCall (ID d)])\<rparr>)) \<and>
     (\<forall>w1 r. dropletEnabledPrivateNetworking A w = CallsRefresh w1 r \<or>
             dropletRestart A w = CallsRefresh w1 r \<or>
             dropletShutDown A w = CallsRefresh w1 r \<longrightarrow>
        droplets w1 = droplets w \<and> Selected w1 = Selected w \<and>
        itemCount w1 = itemCount w \<and> err w1 = err w \<and> r = Refresh A w1) \<and>
     widget_after w (dropletEnabledPrivateNetworking A w) =
       lift_refresh (Refresh A (w\<lparr>client := Some (c @ [EnablePrivateNetworkingCall (ID d)])\<rparr>)) \<and>
     widget_after w (dropletRestart A w) =
       lift_refresh (Refresh A (w\<lparr>client := Some (c @ [RebootCall (ID d)])\<rparr>)) \<and>
     widget_after w (dropletShutDown A w) =
       lift_refresh (Refresh A (w\<lparr>client := Some (c @ [ShutdownCall (ID d)])\<rparr>))"
proof
  assume a: "currentDroplet w = Inr (Some d) \<and> client w = Some c"
  have e: "dropletEnabledPrivateNetworking A w =
       CallsRefresh (w\<lparr>client := Some (c @ [EnablePrivateNetworkingCall (ID d)])\<rparr>)
         (Refresh A (w\<lparr>client := Some (c @ [EnablePrivateNetworkingCall (ID d)])\<rparr>))"
    using a by (simp add: dropletEnabledPrivateNetworking_def)
  have r: "dropletRestart A w =
       CallsRefresh (w\<lparr>client := Some (c @ [RebootCall (ID d)])\<rparr>)
         (Refresh A (w\<lparr>client := Some (c @ [RebootCall (ID d)])\<rparr>))"
    using a by (simp add: dropletRestart_def)
  have s: "dropletShutDown A w =
       CallsRefresh (w\<lparr>client := Some (c @ [ShutdownCall (ID d)])\<rparr>)
         (Refresh A (w\<lparr>client := Some (c @ [ShutdownCall (ID d)])\<rparr>))"
    using a by (simp add: dropletShutDown_def)
  have frame: "\<forall>w1 r. dropletEnabledPrivateNetworking A w = CallsRefresh w1 r \<or>
             dropletRestart A w = CallsRefresh w1 r \<or>
             dropletShutDown A w = CallsRefresh w1 r \<longrightarrow>
        droplets w1 = droplets w \<and> Selected w1 = Selected w \<and>
        itemCount w1 = itemCount w \<and> err w1 = err w \<and> r = Refresh A w1"
    unfolding e r s by auto
  have e': "widget_after w (dropletEnabledPrivateNetworking A w) =
       lift_refresh (Refresh A (w\<lparr>client := Some (c @ [EnablePrivateNetworkingCall (ID d)])\<rparr>))"
    by (simp add: e)
  have r': "widget_after w (dropletRestart A w) =
       lift_refresh (Refresh A (w\<lparr>client := Some (c @ [RebootCall (ID d)])\<rparr>))"
    by (simp add: r)
  have s': "widget_after w (dropletShutDown A w) =
       lift_refresh (Refresh A (w\<lparr>client := Some (c @ [ShutdownCall (ID d)])\<rparr>))"
    by (simp add: s)
  show "dropletEnabledPrivateNetworking A w =
       CallsRefresh (w\<lparr>client := Some (c @ [EnablePrivateNetworkingCall (ID d)])\<rparr>)
         (Refresh A (w\<lparr>client := Some (c @ [EnablePrivateNetworkingCall (ID d)])\<rparr>)) \<and>
     dropletRestart A w =
       CallsRefresh (w\<lparr>client := Some (c @ [RebootCall (ID d)])\<rparr>)
         (Refresh A (w\<lparr>client := Some (c @ [RebootCall (ID d)])\<rparr>)) \<and>
     dropletShutDown A w =
       CallsRefresh (w\<lparr>client := Some (c @ [ShutdownCall (ID d)])\<rparr>)
         (Refresh A (w\<lparr>client := Some (c @ [ShutdownCall (ID d)])\<rparr>)) \<and>
     (\<forall>w1 r. dropletEnabledPrivateNetworking A w = CallsRefresh w1 r \<or>
             dropletRestart A w = CallsRefresh w1 r \<or>
             dropletShutDown A w = CallsRefresh w1 r \<longrightarrow>
        droplets w1 = droplets w \<and> Selected w1 = Selected w \<and>
        itemCount w1 = itemCount w \<and> err w1 = err w \<and> r = Refresh A w1) \<and>
     widget_after w (dropletEnabledPrivateNetworking A w) =
       lift_refresh (Refresh A (w\<lparr>client := Some (c @ [EnablePrivateNetworkingCall (ID d)])\<rparr>)) \<and>
     widget_after w (dropletRestart A w) =
       lift_refresh (Refresh A (w\<lparr>client := Some (c @ [RebootCall (ID d)])\<rparr>)) \<and>
     widget_after w (dropletShutDown A w) =
       lift_refresh (Refresh A (w\<lparr>client := Some (c @ [ShutdownCall (ID d)])\<rparr>))"
    using e r s frame e' r' s' by blast
qed

theorem actions_only_refresh_witness:
  "dropletRestart
     (scripted [pageWithoutLinks [dropletA]] (failedList (errors_New ''unused''))
        (Some (errors_New ''reboot failed'')))
     (widgetWith [dropletA, dropletB] 1)
   = CallsRefresh
       \<lparr>Selected = 1, itemCount = 2, client = Some [RebootCall 2],
          droplets = [dropletA, dropletB], err = None\<rparr>
       (Some \<lparr>Selected = 1, itemCount = 1,
               client = Some [RebootCall 2, ListCall \<lparr>Page = 0, PerPage = 0\<rparr>],
               droplets = [dropletA], err = None\<rparr>)"
  using actions_only_refresh
    [of "widgetWith [dropletA, dropletB] 1" dropletB "[]"
        "scripted [pageWithoutLinks [dropletA]] (failedList (errors_New ''unused''))
           (Some (errors_New ''reboot failed''))"]
  by (simp add: widgetWith_def currentDroplet_def index_def dropletB_def
        Refresh_def Fetch_def SetItemCount_def display_def eval_loop)

end
